theory Spec2Isabelle
  imports Main "HOL-Library.Sublist"
begin

section \<open>Strings and formatting\<close>

text \<open>
  Go strings are byte sequences; they are modelled as \<open>string\<close> (a list of 8-bit
  characters). \<open>show_nat\<close> is what \<open>fmt.Sprintf("%d", n)\<close> prints for a
  non-negative \<open>n\<close>; the source formats placeholder numbers, indices and sizes only.
\<close>

definition digit_char :: "nat \<Rightarrow> char" where
  "digit_char d = ''0123456789'' ! d"

fun show_nat :: "nat \<Rightarrow> string" where
  "show_nat n = (if n < 10 then [digit_char n] else show_nat (n div 10) @ [digit_char (n mod 10)])"

declare show_nat.simps [simp del]



section \<open>Errors\<close>

text \<open>
  What the driver reports, and Go's error chains: \<open>fmt.Errorf("msg: %w", err)\<close> is
  \<open>Wrap msg err\<close>.
\<close>

datatype pq_error = ConnectionFailure | UniqueViolation string | ConstraintViolation string

datatype error = Pq pq_error | Wrap string error

section \<open>The filter compiler (database.GetFilteredLogs)\<close>

text \<open>
  Instants (Go's \<open>time.Time\<close>) are nanoseconds on an unbounded integer time line.
\<close>

type_synonym time = int

record LogFilter =
  EventType :: string
  EventName :: string
  UserID :: string
  SessionID :: string
  AppVersion :: string
  Priority :: string
  ProviderName :: string
  StartTime :: "time option"
  EndTime :: "time option"
  Limit :: int
  Offset :: int
  SortBy :: string
  SortOrder :: string

text \<open>A value bound to a placeholder (\<open>[]interface{}\<close> in the source).\<close>

datatype arg = StrArg string | TimeArg time | IntArg int

text \<open>
  The three variables the source threads through the chain of \<open>if\<close> blocks:
  \<open>conditions\<close>, \<open>args\<close> and \<open>argIndex\<close>.
\<close>

record builder =
  conditions :: "string list"
  args :: "arg list"
  argIndex :: nat

definition empty_filter :: LogFilter where
  "empty_filter =
     \<lparr>EventType = [], EventName = [], UserID = [], SessionID = [], AppVersion = [], Priority = [],
      ProviderName = [], StartTime = None, EndTime = None, Limit = 0, Offset = 0, SortBy = [],
      SortOrder = []\<rparr>"

definition builder_init :: builder where
  "builder_init = \<lparr>conditions = [], args = [], argIndex = 1\<rparr>"

text \<open>
  One \<open>if\<close> block of the source: append \<open>fmt.Sprintf("<column> <op> $%d", argIndex)\<close>
  to \<open>conditions\<close>, append the value to \<open>args\<close>, increment \<open>argIndex\<close>.
\<close>

definition add_condition :: "string \<Rightarrow> arg \<Rightarrow> builder \<Rightarrow> builder" where
  "add_condition fmt v b =
     \<lparr>conditions = conditions b @ [fmt @ show_nat (argIndex b)],
      args = args b @ [v],
      argIndex = argIndex b + 1\<rparr>"

definition add_string :: "string \<Rightarrow> string \<Rightarrow> builder \<Rightarrow> builder" where
  "add_string fmt v b = (if v \<noteq> [] then add_condition fmt (StrArg v) b else b)"

definition add_time :: "string \<Rightarrow> time option \<Rightarrow> builder \<Rightarrow> builder" where
  "add_time fmt v b = (case v of None \<Rightarrow> b | Some t \<Rightarrow> add_condition fmt (TimeArg t) b)"

definition build_conditions :: "LogFilter \<Rightarrow> builder" where
  "build_conditions f =
     add_time ''created_at <= $'' (EndTime f)
      (add_time ''created_at >= $'' (StartTime f)
       (add_string ''properties->'tags'->>'provider' = $'' (ProviderName f)
        (add_string ''priority = $'' (Priority f)
         (add_string ''app_version = $'' (AppVersion f)
          (add_string ''session_id = $'' (SessionID f)
           (add_string ''user_id = $'' (UserID f)
            (add_string ''event_name = $'' (EventName f)
             (add_string ''event_type = $'' (EventType f) builder_init))))))))"



definition validSortFields :: "string list" where
  "validSortFields =
     [''id'', ''event_id'', ''timestamp'', ''event_type'', ''event_name'', ''user_id'',
      ''session_id'', ''app_version'', ''priority'', ''created_at'']"

definition sortBy :: "LogFilter \<Rightarrow> string" where
  "sortBy f =
     (if SortBy f \<noteq> [] then (if SortBy f \<in> set validSortFields then SortBy f else ''created_at'')
      else ''created_at'')"

definition sortOrder :: "LogFilter \<Rightarrow> string" where
  "sortOrder f = (if SortOrder f = ''ASC'' \<or> SortOrder f = ''asc'' then ''ASC'' else ''DESC'')"



text \<open>
  After the count query the source goes on with the same three variables: \<open>LIMIT\<close> takes
  the next placeholder, and \<open>OFFSET\<close> the one after it when the offset is positive.
\<close>

definition limitClause :: "LogFilter \<Rightarrow> string" where
  "limitClause f =
     (let b = build_conditions f;
          l = ''ORDER BY '' @ sortBy f @ '' '' @ sortOrder f @ '' LIMIT $'' @ show_nat (argIndex b)
      in if Offset f > 0 then l @ '' OFFSET $'' @ show_nat (argIndex b + 1) else l)"




text \<open>
  The store answers a query text with its bound arguments; it is the external relational
  engine, so its two entry points are parameters: \<open>queryRow\<close> for the count, and
  \<open>query\<close> for the page, which hands back a cursor or fails. The cursor is the list of
  what the steps of \<open>rows.Next()\<close> deliver: each a row (\<open>Inr\<close>) or a row that
  \<open>rows.Scan\<close> cannot read (\<open>Inl\<close>). The source never asks \<open>rows.Err()\<close>: an
  iteration that breaks off is a cursor that ends early, and the rows read so far are
  returned with no error.
\<close>



subsection \<open>The predicate set, read off the filter\<close>

text \<open>
  The specification speaks of a conjunctive predicate set: one (column and operator,
  bound value) pair per present filter field, in the order of the fields. \<open>predicates\<close>
  follows those words; \<open>numbered\<close> gives each predicate its positional placeholder.
  The theorems below compare the source's builder with them.
\<close>

definition predicates :: "LogFilter \<Rightarrow> (string \<times> arg) list" where
  "predicates f =
     (if EventType f \<noteq> [] then [(''event_type = $'', StrArg (EventType f))] else []) @
     (if EventName f \<noteq> [] then [(''event_name = $'', StrArg (EventName f))] else []) @
     (if UserID f \<noteq> [] then [(''user_id = $'', StrArg (UserID f))] else []) @
     (if SessionID f \<noteq> [] then [(''session_id = $'', StrArg (SessionID f))] else []) @
     (if AppVersion f \<noteq> [] then [(''app_version = $'', StrArg (AppVersion f))] else []) @
     (if Priority f \<noteq> [] then [(''priority = $'', StrArg (Priority f))] else []) @
     (if ProviderName f \<noteq> [] then [(''properties->'tags'->>'provider' = $'', StrArg (ProviderName f))] else []) @
     (case StartTime f of None \<Rightarrow> [] | Some t \<Rightarrow> [(''created_at >= $'', TimeArg t)]) @
     (case EndTime f of None \<Rightarrow> [] | Some t \<Rightarrow> [(''created_at <= $'', TimeArg t)])"

definition numbered :: "(string \<times> arg) list \<Rightarrow> string list" where
  "numbered ps = map (\<lambda>(i, p). fst p @ show_nat (Suc i)) (enumerate 0 ps)"

definition builder_of :: "(string \<times> arg) list \<Rightarrow> builder" where
  "builder_of ps = \<lparr>conditions = numbered ps, args = map snd ps, argIndex = Suc (length ps)\<rparr>"



text \<open>
  The sort order as the specification words it: a case-insensitive comparison with
  \<open>asc\<close>. \<open>ascii_lower\<close> folds the upper-case ASCII letters.
\<close>

definition ascii_lower :: "char \<Rightarrow> char" where
  "ascii_lower c =
     (if 65 \<le> (of_char c :: nat) \<and> (of_char c :: nat) \<le> 90 then char_of ((of_char c :: nat) + 32) else c)"

definition claimed_sortOrder :: "string \<Rightarrow> string" where
  "claimed_sortOrder s = (if map ascii_lower s = ''asc'' then ''ASC'' else ''DESC'')"

section \<open>The data model (models/log.go) and the store\<close>

datatype json = JNull | JBool bool | JNum string | JStr string | JArr "json list" | JObj "(string \<times> json) list"

text \<open>\<open>JSONB\<close> is a Go map, so it can be \<open>nil\<close>: \<open>None\<close>.\<close>

type_synonym JSONB = "(string \<times> json) list option"

text \<open>
  The zero \<open>time.Time\<close> (January 1 of year 1, UTC), the instant \<open>IsZero\<close> recognises.
\<close>

definition zero_time :: time where
  "zero_time = - 62135596800 * 1000000000"

record AnalyticsLog =
  log_id :: int
  event_id :: string
  timestamp :: time
  event_type :: string
  event_name :: string
  properties :: JSONB
  user_id :: "string option"
  session_id :: "string option"
  app_version :: "string option"
  device_info :: JSONB
  sequence_number :: "int option"
  priority :: string
  created_at :: time
  processed_at :: "time option"

record APIKey =
  ID :: int
  KeyHash :: string
  Name :: string
  IsActive :: bool
  CreatedAt :: time
  LastUsedAt :: "time option"
  ExpiresAt :: "time option"
  UsageCount :: int

text \<open>
  The store: the rows of the two tables of the migration, and what the engine decides on
  its own. \<open>io_fails\<close> says which driver operations fail for a reason outside the data (a
  lost connection); \<open>column_check\<close> is the engine's check of a row against the column
  types of \<open>analytics_logs\<close> (widths, ranges). Uniqueness of \<open>event_id\<close> and of
  \<open>key_hash\<close> is the schema's \<open>UNIQUE\<close> and is written out below.
\<close>

datatype db_op = OpBegin | OpPrepare | OpExec | OpCommit | OpQueryRow

record DB =
  api_keys :: "APIKey list"
  analytics_logs :: "AnalyticsLog list"
  io_fails :: "db_op \<Rightarrow> bool"
  column_check :: "AnalyticsLog \<Rightarrow> pq_error option"

text \<open>
  \<open>SELECT ... FROM api_keys WHERE key_hash = $1 AND is_active = true\<close>, first row;
  \<open>sql.ErrNoRows\<close> becomes \<open>(nil, nil)\<close>.
\<close>

definition GetAPIKey :: "DB \<Rightarrow> string \<Rightarrow> error + APIKey option" where
  "GetAPIKey db keyHash =
     (if io_fails db OpQueryRow then Inl (Wrap ''failed to get API key'' (Pq ConnectionFailure))
      else Inr (find (\<lambda>k. KeyHash k = keyHash \<and> IsActive k) (api_keys db)))"

text \<open>
  \<open>INSERT INTO api_keys (key_hash, name, is_active, expires_at) ... RETURNING id, created_at\<close>:
  the other columns take their defaults, and \<open>key_hash\<close> is \<open>UNIQUE\<close>.
\<close>

definition InsertAPIKey :: "DB \<Rightarrow> time \<Rightarrow> APIKey \<Rightarrow> error + (APIKey \<times> DB)" where
  "InsertAPIKey db now apiKey =
     (if io_fails db OpQueryRow then Inl (Wrap ''failed to insert API key'' (Pq ConnectionFailure))
      else if KeyHash apiKey \<in> set (map KeyHash (api_keys db))
        then Inl (Wrap ''failed to insert API key'' (Pq (UniqueViolation ''key_hash'')))
      else
        (let ident = int (length (api_keys db)) + 1;
             row = apiKey\<lparr>ID := ident, CreatedAt := now, LastUsedAt := None, UsageCount := 0\<rparr>
         in Inr (apiKey\<lparr>ID := ident, CreatedAt := now\<rparr>, db\<lparr>api_keys := api_keys db @ [row]\<rparr>)))"

definition UpdateAPIKeyUsage :: "DB \<Rightarrow> time \<Rightarrow> string \<Rightarrow> error option \<times> DB" where
  "UpdateAPIKeyUsage db now keyHash =
     (if io_fails db OpExec then (Some (Wrap ''failed to update API key usage'' (Pq ConnectionFailure)), db)
      else (None, db\<lparr>api_keys :=
              map (\<lambda>k. if KeyHash k = keyHash
                        then k\<lparr>LastUsedAt := Some now, UsageCount := UsageCount k + 1\<rparr> else k)
                  (api_keys db)\<rparr>))"

text \<open>
  One \<open>stmt.Exec\<close> of the batch insert, on the rows the transaction sees: \<open>event_id\<close>
  is \<open>UNIQUE\<close>; \<open>id\<close>, \<open>created_at\<close> and \<open>processed_at\<close> take their defaults.
\<close>

definition stmt_Exec :: "DB \<Rightarrow> time \<Rightarrow> AnalyticsLog list \<Rightarrow> AnalyticsLog \<Rightarrow> pq_error + AnalyticsLog list" where
  "stmt_Exec db now rows l =
     (if io_fails db OpExec then Inl ConnectionFailure
      else if event_id l \<in> set (map event_id rows) then Inl (UniqueViolation ''event_id'')
      else (case column_check db l of
              Some e \<Rightarrow> Inl e
            | None \<Rightarrow> Inr (rows @ [l\<lparr>log_id := int (length rows) + 1, created_at := now, processed_at := None\<rparr>])))"

text \<open>The loop \<open>for _, log := range logs\<close> inside the transaction: it returns at the first error.\<close>

fun exec_loop :: "DB \<Rightarrow> time \<Rightarrow> AnalyticsLog list \<Rightarrow> AnalyticsLog list \<Rightarrow> error + AnalyticsLog list" where
  "exec_loop db now rows [] = Inr rows"
| "exec_loop db now rows (l # ls) =
     (case stmt_Exec db now rows l of
        Inl e \<Rightarrow> Inl (Wrap ''failed to execute batch insert'' (Pq e))
      | Inr rows' \<Rightarrow> exec_loop db now rows' ls)"

text \<open>
  \<open>InsertLogsBatch\<close>: the transaction works on its own view of the table (\<open>tx\<close>); the
  deferred \<open>tx.Rollback()\<close> discards that view on every return before a successful
  \<open>Commit\<close>, which alone publishes it.
\<close>

definition InsertLogsBatch :: "DB \<Rightarrow> time \<Rightarrow> AnalyticsLog list \<Rightarrow> error option \<times> DB" where
  "InsertLogsBatch db now logs =
     (if length logs = 0 then (None, db)
      else if io_fails db OpBegin then (Some (Wrap ''failed to begin transaction'' (Pq ConnectionFailure)), db)
      else if io_fails db OpPrepare then (Some (Wrap ''failed to prepare statement'' (Pq ConnectionFailure)), db)
      else
        (case exec_loop db now (analytics_logs db) logs of
           Inl e \<Rightarrow> (Some e, db)
         | Inr tx \<Rightarrow>
             if io_fails db OpCommit then (Some (Wrap ''failed to commit transaction'' (Pq ConnectionFailure)), db)
             else (None, db\<lparr>analytics_logs := tx\<rparr>)))"

section \<open>Responses\<close>

datatype ValidationError = ValidationError string string

datatype response_body =
    ErrorResponse string string "ValidationError list"
  | SuccessResponse bool string "(string \<times> int) list"

text \<open>\<open>c.JSON(status, body)\<close>.\<close>

datatype http_response = JSON nat response_body

section \<open>The auth validator (auth package)\<close>

record AuthService =
  apiKeys :: "string \<rightharpoonup> bool"
  lastSync :: time

definition NewAuthService :: AuthService where
  "NewAuthService = \<lparr>apiKeys = Map.empty, lastSync = zero_time\<rparr>"

text \<open>Reading a Go \<open>map[string]bool\<close>: a missing key reads as \<open>false\<close>.\<close>

definition map_read :: "(string \<rightharpoonup> bool) \<Rightarrow> string \<Rightarrow> bool" where
  "map_read m k = (case m k of None \<Rightarrow> False | Some b \<Rightarrow> b)"

text \<open>
  \<open>hashAPIKey\<close> is the hexadecimal SHA-256 digest of the key; the digest function of the
  standard library is the parameter \<open>sha256_hex\<close>.
\<close>

definition hashAPIKey :: "(string \<Rightarrow> string) \<Rightarrow> string \<Rightarrow> string" where
  "hashAPIKey sha256_hex key = sha256_hex key"

text \<open>
  The body of the loop of \<open>InitializeAPIKeys\<close> and the loop itself. An error return
  leaves the cache and the store as the earlier iterations made them. \<open>today\<close> is
  \<open>time.Now().Format("2006-01-02")\<close>.
\<close>

fun InitializeAPIKeys_loop ::
  "(string \<Rightarrow> string) \<Rightarrow> string \<Rightarrow> time \<Rightarrow> string list \<Rightarrow> AuthService \<Rightarrow> DB \<Rightarrow> error option \<times> AuthService \<times> DB" where
  "InitializeAPIKeys_loop sha256_hex today now [] as db = (None, as, db)"
| "InitializeAPIKeys_loop sha256_hex today now (key # keys) as db =
     (let keyHash = hashAPIKey sha256_hex key in
      case GetAPIKey db keyHash of
        Inl err \<Rightarrow> (Some (Wrap ''failed to check existing API key'' err), as, db)
      | Inr None \<Rightarrow>
          (case InsertAPIKey db now
                  \<lparr>ID = 0, KeyHash = keyHash, Name = ''Auto-generated key '' @ today, IsActive = True,
                   CreatedAt = zero_time, LastUsedAt = None, ExpiresAt = None, UsageCount = 0\<rparr> of
             Inl err \<Rightarrow> (Some (Wrap ''failed to insert API key'' err), as, db)
           | Inr (apiKey, db') \<Rightarrow>
               InitializeAPIKeys_loop sha256_hex today now keys
                 (as\<lparr>apiKeys := (apiKeys as)(keyHash \<mapsto> True)\<rparr>) db')
      | Inr (Some existingKey) \<Rightarrow>
          InitializeAPIKeys_loop sha256_hex today now keys
            (as\<lparr>apiKeys := (apiKeys as)(keyHash \<mapsto> True)\<rparr>) db)"

definition InitializeAPIKeys ::
  "(string \<Rightarrow> string) \<Rightarrow> string \<Rightarrow> time \<Rightarrow> string list \<Rightarrow> AuthService \<Rightarrow> DB \<Rightarrow> error option \<times> AuthService \<times> DB" where
  "InitializeAPIKeys sha256_hex today now keys as db =
     (case InitializeAPIKeys_loop sha256_hex today now keys as db of
        (Some err, as', db') \<Rightarrow> (Some err, as', db')
      | (None, as', db') \<Rightarrow> (None, as'\<lparr>lastSync := now\<rparr>, db'))"

text \<open>
  Request headers as \<open>http.Header\<close> holds them: canonical name to values.
  \<open>Header_Get\<close> is the first value, or the empty string. The source asks for
  \<open>"X-API-Key"\<close>, whose canonical form is \<open>X-Api-Key\<close>.
\<close>

type_synonym Header = "string \<rightharpoonup> string list"

definition Header_Get :: "Header \<Rightarrow> string \<Rightarrow> string" where
  "Header_Get h k = (case h k of None \<Rightarrow> [] | Some [] \<Rightarrow> [] | Some (v # vs) \<Rightarrow> v)"

definition HasPrefix :: "string \<Rightarrow> string \<Rightarrow> bool" where
  "HasPrefix s p = (take (length p) s = p)"

definition TrimPrefix :: "string \<Rightarrow> string \<Rightarrow> string" where
  "TrimPrefix s p = (if HasPrefix s p then drop (length p) s else s)"

definition extractAPIKey :: "Header \<Rightarrow> string" where
  "extractAPIKey h =
     (let auth = Header_Get h ''Authorization'' in
      if auth \<noteq> [] then
        (if HasPrefix auth ''Bearer '' then TrimPrefix auth ''Bearer '' else auth)
      else Header_Get h ''X-Api-Key'')"

definition five_minutes :: int where
  "five_minutes = 5 * 60 * 1000000000"

definition refreshCache :: "time \<Rightarrow> AuthService \<Rightarrow> AuthService" where
  "refreshCache now as = as\<lparr>lastSync := now\<rparr>"

definition isValidCachedKey :: "time \<Rightarrow> AuthService \<Rightarrow> string \<Rightarrow> bool \<times> AuthService" where
  "isValidCachedKey now as keyHash =
     (let as' = (if now - lastSync as > five_minutes then refreshCache now as else as)
      in (map_read (apiKeys as') keyHash, as'))"

text \<open>
  What one run of the middleware does: it aborts with a response or lets the request
  through with \<open>api_key_hash\<close> set (\<open>Next\<close>); it leaves the service in a new state; it
  looked the hashes of \<open>lookups\<close> up in the store before answering; and it started a
  background usage update for the hashes of \<open>spawned\<close>, which it does not wait for.
  The clock is read once per request.
\<close>

datatype auth_outcome = Abort http_response | Next string

record auth_step =
  outcome :: auth_outcome
  service :: AuthService
  lookups :: "string list"
  spawned :: "string list"

definition AuthMiddleware :: "(string \<Rightarrow> string) \<Rightarrow> time \<Rightarrow> AuthService \<Rightarrow> DB \<Rightarrow> Header \<Rightarrow> auth_step" where
  "AuthMiddleware sha256_hex now as db h =
     (let apiKey = extractAPIKey h in
      if apiKey = [] then
        \<lparr>outcome = Abort (JSON 401 (ErrorResponse ''unauthorized'' ''API key is required'' [])),
         service = as, lookups = [], spawned = []\<rparr>
      else
        (let keyHash = hashAPIKey sha256_hex apiKey;
             (cached, as1) = isValidCachedKey now as keyHash in
         if cached then \<lparr>outcome = Next keyHash, service = as1, lookups = [], spawned = [keyHash]\<rparr>
         else
           (case GetAPIKey db keyHash of
              Inl err \<Rightarrow>
                \<lparr>outcome = Abort (JSON 500 (ErrorResponse ''internal_error'' ''Failed to validate API key'' [])),
                 service = as1, lookups = [keyHash], spawned = []\<rparr>
            | Inr dbKey \<Rightarrow>
                if (case dbKey of None \<Rightarrow> True | Some k \<Rightarrow> \<not> IsActive k) then
                  \<lparr>outcome = Abort (JSON 401 (ErrorResponse ''unauthorized'' ''Invalid or inactive API key'' [])),
                   service = as1, lookups = [keyHash], spawned = []\<rparr>
                else if (case dbKey of None \<Rightarrow> False
                         | Some k \<Rightarrow> (case ExpiresAt k of None \<Rightarrow> False | Some e \<Rightarrow> e < now)) then
                  \<lparr>outcome = Abort (JSON 401 (ErrorResponse ''unauthorized'' ''API key has expired'' [])),
                   service = as1, lookups = [keyHash], spawned = []\<rparr>
                else
                  \<lparr>outcome = Next keyHash,
                   service = as1\<lparr>apiKeys := (apiKeys as1)(keyHash \<mapsto> True)\<rparr>,
                   lookups = [keyHash], spawned = [keyHash]\<rparr>)))"

text \<open>
  A stream of requests: each arrives at its instant, finds the store as it is then, and
  is answered in the state the earlier ones left.
\<close>

fun serve :: "(string \<Rightarrow> string) \<Rightarrow> AuthService \<Rightarrow> (time \<times> DB \<times> Header) list \<Rightarrow> auth_step list" where
  "serve sha256_hex as [] = []"
| "serve sha256_hex as ((now, db, h) # rs) =
     (let st = AuthMiddleware sha256_hex now as db h in st # serve sha256_hex (service st) rs)"

subsection \<open>Names for the claims about the validator\<close>

text \<open>The two rejections the middleware sends for a key the store does not confirm.\<close>

definition invalid_or_inactive :: http_response where
  "invalid_or_inactive = JSON 401 (ErrorResponse ''unauthorized'' ''Invalid or inactive API key'' [])"

definition key_expired :: http_response where
  "key_expired = JSON 401 (ErrorResponse ''unauthorized'' ''API key has expired'' [])"

text \<open>
  A key hash is confirmed valid by the store at an instant: the lookup returns a record
  of that hash which is active and does not expire before that instant (the source's
  \<open>ExpiresAt.Before(time.Now())\<close>).
\<close>

definition confirmed_valid :: "DB \<Rightarrow> time \<Rightarrow> string \<Rightarrow> bool" where
  "confirmed_valid db now keyHash =
     (case GetAPIKey db keyHash of
        Inl err \<Rightarrow> False
      | Inr None \<Rightarrow> False
      | Inr (Some k) \<Rightarrow> KeyHash k = keyHash \<and> IsActive k \<and> (case ExpiresAt k of None \<Rightarrow> True | Some e \<Rightarrow> \<not> e < now))"

text \<open>
  Data for the examples: a key record, a store that holds the given key records and never
  fails, and a stand-in for the digest.
\<close>

definition example_key :: "string \<Rightarrow> bool \<Rightarrow> time option \<Rightarrow> APIKey" where
  "example_key h active expires =
     \<lparr>ID = 1, KeyHash = h, Name = ''Auto-generated key 2024-01-01'', IsActive = active, CreatedAt = 0,
      LastUsedAt = None, ExpiresAt = expires, UsageCount = 0\<rparr>"

definition example_store :: "APIKey list \<Rightarrow> DB" where
  "example_store ks = \<lparr>api_keys = ks, analytics_logs = [], io_fails = (\<lambda>op. False), column_check = (\<lambda>l. None)\<rparr>"

definition example_digest :: "string \<Rightarrow> string" where
  "example_digest k = ''sha256:'' @ k"

section \<open>Batch ingestion (handlers.IngestBatch)\<close>

definition setDefaultValues :: "time \<Rightarrow> AnalyticsLog \<Rightarrow> AnalyticsLog" where
  "setDefaultValues now l =
     (let l1 = (if timestamp l = zero_time then l\<lparr>timestamp := now\<rparr> else l);
          l2 = (if priority l1 = [] then l1\<lparr>priority := ''normal''\<rparr> else l1);
          l3 = (if properties l2 = None then l2\<lparr>properties := Some []\<rparr> else l2)
      in if device_info l3 = None then l3\<lparr>device_info := Some []\<rparr> else l3)"

text \<open>
  \<open>validator.Struct\<close> on an \<open>AnalyticsLog\<close>, as the \<open>validate\<close> tags of the struct
  direct it: the fields in declaration order, for each field its tags in order, and one
  \<open>FieldError\<close> (field name, failed tag, the tag's parameter) for the first tag that
  fails. No error at all is the source's \<open>err == nil\<close>.
\<close>

datatype FieldError = FieldError string string string

definition event_types :: "string list" where
  "event_types = [''behavioral'', ''telemetry'', ''observability'', ''error'', ''performance'']"

definition Struct :: "AnalyticsLog \<Rightarrow> FieldError list" where
  "Struct l =
     (if event_id l = [] then [FieldError ''EventID'' ''required'' []] else []) @
     (if timestamp l = zero_time then [FieldError ''Timestamp'' ''required'' []] else []) @
     (if event_type l = [] then [FieldError ''EventType'' ''required'' []]
      else if event_type l \<notin> set event_types
        then [FieldError ''EventType'' ''oneof'' ''behavioral telemetry observability error performance'']
      else []) @
     (if event_name l = [] then [FieldError ''EventName'' ''required'' []] else []) @
     (if priority l \<notin> set [''normal'', ''high''] then [FieldError ''Priority'' ''oneof'' ''normal high''] else [])"

definition getValidationMessage :: "string \<Rightarrow> string \<Rightarrow> string" where
  "getValidationMessage tag param =
     (if tag = ''required'' then ''This field is required''
      else if tag = ''oneof'' then ''Must be one of: '' @ param
      else if tag = ''min'' then ''Must be at least '' @ param @ '' characters''
      else if tag = ''max'' then ''Must be at most '' @ param @ '' characters''
      else if tag = ''email'' then ''Must be a valid email address''
      else if tag = ''event_type''
        then ''Must be a valid event type (behavioral, telemetry, observability, error, performance)''
      else ''Validation failed for tag '' @ [CHR 0x27] @ tag @ [CHR 0x27])"

text \<open>
  The body of the loop of \<open>formatValidationErrors\<close> (one \<open>ValidationError\<close> from one
  \<open>FieldError\<close>) and the loop.
\<close>

definition format_error :: "FieldError \<Rightarrow> ValidationError" where
  "format_error fe = (case fe of FieldError field tag param \<Rightarrow> ValidationError field (getValidationMessage tag param))"

definition formatValidationErrors :: "FieldError list \<Rightarrow> ValidationError list" where
  "formatValidationErrors errs = map format_error errs"

text \<open>\<open>ve.Field = fmt.Sprintf("logs[%d].%s", i, ve.Field)\<close>.\<close>

definition tag_index :: "nat \<Rightarrow> ValidationError \<Rightarrow> ValidationError" where
  "tag_index i ve = (case ve of ValidationError field msg \<Rightarrow> ValidationError (''logs['' @ show_nat i @ ''].'' @ field) msg)"

text \<open>
  The loop \<open>for i, log := range batchRequest.Logs\<close> with its two accumulators.
\<close>

fun validate_loop ::
  "time \<Rightarrow> nat \<Rightarrow> AnalyticsLog list \<Rightarrow> ValidationError list \<Rightarrow> AnalyticsLog list \<Rightarrow>
   ValidationError list \<times> AnalyticsLog list" where
  "validate_loop now i [] validationErrors validLogs = (validationErrors, validLogs)"
| "validate_loop now i (l # ls) validationErrors validLogs =
     (let l' = setDefaultValues now l; err = Struct l' in
      if err \<noteq> [] then
        validate_loop now (i + 1) ls (validationErrors @ map (tag_index i) (formatValidationErrors err)) validLogs
      else validate_loop now (i + 1) ls validationErrors (validLogs @ [l']))"

text \<open>
  The handler. Its input is what \<open>ShouldBindJSON\<close> made of the body: \<open>None\<close> when the
  body did not decode, otherwise the list \<open>Logs\<close>. Its result is the response, the store
  afterwards, and the batches it handed to \<open>InsertLogsBatch\<close> (none when it answered before
  reaching the store). The Prometheus counters are left out.
\<close>

definition maxBatchSize :: nat where
  "maxBatchSize = 1000"

definition IngestBatch ::
  "DB \<Rightarrow> time \<Rightarrow> AnalyticsLog list option \<Rightarrow> http_response \<times> DB \<times> AnalyticsLog list list" where
  "IngestBatch db now bound =
     (case bound of
        None \<Rightarrow> (JSON 400 (ErrorResponse ''invalid_json'' ''Invalid JSON format'' []), db, [])
      | Some logs \<Rightarrow>
          if length logs = 0 then (JSON 400 (ErrorResponse ''empty_batch'' ''Batch cannot be empty'' []), db, [])
          else if length logs > maxBatchSize then
            (JSON 400 (ErrorResponse ''batch_too_large''
               (''Batch size cannot exceed '' @ show_nat maxBatchSize @ '' logs'') []), db, [])
          else
            (case validate_loop now 0 logs [] [] of
               (validationErrors, validLogs) \<Rightarrow>
                 if length validationErrors > 0 then
                   (JSON 400 (ErrorResponse ''validation_error''
                      (''Validation failed for '' @ show_nat (length validationErrors) @ '' logs'')
                      validationErrors), db, [])
                 else
                   (case InsertLogsBatch db now validLogs of
                      (Some err, db') \<Rightarrow>
                        (JSON 500 (ErrorResponse ''database_error'' ''Failed to store logs'' []), db', [validLogs])
                    | (None, db') \<Rightarrow>
                        (JSON 201 (SuccessResponse True
                           (''Batch of '' @ show_nat (length validLogs) @ '' logs ingested successfully'')
                           [(''logs_processed'', int (length validLogs)),
                            (''total_received'', int (length logs))]), db', [validLogs]))))"

subsection \<open>Names for the claims about batches\<close>

text \<open>
  Every field error of every log of a batch, each tagged with the index of its log, in
  the order of the logs: what the specification asks the response to enumerate.
\<close>

definition batch_errors :: "time \<Rightarrow> AnalyticsLog list \<Rightarrow> ValidationError list" where
  "batch_errors now logs =
     concat (map (\<lambda>(i, l). map (tag_index i) (formatValidationErrors (Struct (setDefaultValues now l))))
                 (enumerate 0 logs))"

text \<open>A log for the examples: valid as it stands once it has an \<open>event_id\<close>.\<close>

definition example_log :: "string \<Rightarrow> AnalyticsLog" where
  "example_log eid =
     \<lparr>log_id = 0, event_id = eid, timestamp = 1700000000000000000, event_type = ''error'', event_name = ''crash'',
      properties = None, user_id = None, session_id = None, app_version = None, device_info = None,
      sequence_number = None, priority = [], created_at = zero_time, processed_at = None\<rparr>"

section \<open>Verification: the filter compiler\<close>

subsection \<open>Decimal rendering\<close>



subsection \<open>The builder computes the predicate set\<close>

lemma builder_init_eq: "builder_init = builder_of []"
  by (simp add: builder_init_def builder_of_def numbered_def)

lemma add_condition_builder_of: "add_condition fmt v (builder_of ps) = builder_of (ps @ [(fmt, v)])"
  by (simp add: add_condition_def builder_of_def numbered_def enumerate_append_eq)

lemma add_string_builder_of:
  "add_string fmt v (builder_of ps) = builder_of (ps @ (if v \<noteq> [] then [(fmt, StrArg v)] else []))"
  by (simp add: add_string_def add_condition_builder_of)

lemma add_time_builder_of:
  "add_time fmt v (builder_of ps) = builder_of (ps @ (case v of None \<Rightarrow> [] | Some t \<Rightarrow> [(fmt, TimeArg t)]))"
  by (simp add: add_time_def add_condition_builder_of split: option.split)

lemma build_conditions_predicates: "build_conditions f = builder_of (predicates f)"
  unfolding build_conditions_def builder_init_eq add_string_builder_of add_time_builder_of predicates_def
  by simp

lemma limitClause_eq:
  "limitClause f =
     ''ORDER BY '' @ sortBy f @ '' '' @ sortOrder f @ '' LIMIT $'' @ show_nat (Suc (length (predicates f))) @
     (if Offset f > 0 then '' OFFSET $'' @ show_nat (Suc (Suc (length (predicates f)))) else [])"
  by (simp add: limitClause_def Let_def build_conditions_predicates builder_of_def)


subsection \<open>The sort column\<close>




















subsection \<open>Count and page query\<close>




subsection \<open>The sort order\<close>

lemma claimed_sortOrder_asc: "claimed_sortOrder ''ASC'' = ''ASC''" "claimed_sortOrder ''asc'' = ''ASC''"
  by code_simp+

text \<open>
  Claim C5, as the code has it. The order of the page query is \<open>ASC\<close> or \<open>DESC\<close>; it is
  \<open>ASC\<close> exactly for the two spellings \<open>ASC\<close> and \<open>asc\<close>, and \<open>DESC\<close> for every other
  input. Where the code answers \<open>ASC\<close> the case-insensitive reading agrees, and where
  the case-insensitive reading answers \<open>DESC\<close> (any spelling of \<open>desc\<close>, the empty
  string, anything else) the code agrees.
\<close>

theorem sortOrder_exact_spellings:
  "(sortOrder f = ''ASC'' \<or> sortOrder f = ''DESC'') \<and>
   (sortOrder f = ''ASC'') = (SortOrder f = ''ASC'' \<or> SortOrder f = ''asc'') \<and>
   (sortOrder f = ''ASC'' \<longrightarrow> claimed_sortOrder (SortOrder f) = ''ASC'') \<and>
   (claimed_sortOrder (SortOrder f) = ''DESC'' \<longrightarrow> sortOrder f = ''DESC'') \<and>
   limitClause f =
     ''ORDER BY '' @ sortBy f @ '' '' @ sortOrder f @ '' LIMIT $'' @ show_nat (Suc (length (predicates f))) @
     (if Offset f > 0 then '' OFFSET $'' @ show_nat (Suc (Suc (length (predicates f)))) else [])"
proof -
  have a: "(sortOrder f = ''ASC'') = (SortOrder f = ''ASC'' \<or> SortOrder f = ''asc'')"
    by (simp add: sortOrder_def)
  have b: "sortOrder f = ''ASC'' \<or> sortOrder f = ''DESC''"
    by (simp add: sortOrder_def)
  have c: "sortOrder f = ''ASC'' \<Longrightarrow> claimed_sortOrder (SortOrder f) = ''ASC''"
    using a claimed_sortOrder_asc by auto
  have d: "claimed_sortOrder (SortOrder f) = ''DESC'' \<Longrightarrow> sortOrder f = ''DESC''"
    using b c by auto
  show ?thesis using a b c d limitClause_eq by blast
qed

theorem sortOrder_exact_spellings_witness:
  "sortOrder (empty_filter\<lparr>SortOrder := ''asc''\<rparr>) = ''ASC'' \<and> claimed_sortOrder ''asc'' = ''ASC'' \<and>
   claimed_sortOrder ''DeSc'' = ''DESC'' \<and> sortOrder (empty_filter\<lparr>SortOrder := ''DeSc''\<rparr>) = ''DESC''"
proof -
  have a: "sortOrder (empty_filter\<lparr>SortOrder := ''asc''\<rparr>) = ''ASC''" by (simp add: sortOrder_def)
  have b: "claimed_sortOrder ''DeSc'' = ''DESC''" by code_simp
  show ?thesis
    using a b sortOrder_exact_spellings[of "empty_filter\<lparr>SortOrder := ''asc''\<rparr>"]
      sortOrder_exact_spellings[of "empty_filter\<lparr>SortOrder := ''DeSc''\<rparr>"]
    by simp
qed

text \<open>
  The mixed-case spelling \<open>Asc\<close> equals \<open>asc\<close> case-insensitively, and the code sorts
  it descending.
\<close>

theorem mixed_case_asc_sorts_descending:
  "claimed_sortOrder ''Asc'' = ''ASC'' \<and> sortOrder (empty_filter\<lparr>SortOrder := ''Asc''\<rparr>) = ''DESC''"
  by code_simp

section \<open>Verification: the auth validator\<close>

subsection \<open>Credential extraction\<close>

lemma HasPrefix_append: "HasPrefix (p @ rest) p"
  by (simp add: HasPrefix_def)

text \<open>
  Claim C10. When the \<open>Authorization\<close> header is not empty, the key is its value without
  a leading \<open>Bearer \<close>, or the whole value when it does not start so, and the
  \<open>X-API-Key\<close> header has no influence, whatever it holds. \<open>X-API-Key\<close> is read only
  when \<open>Authorization\<close> is empty.
\<close>

theorem extractAPIKey_precedence:
  "(Header_Get h ''Authorization'' \<noteq> [] \<longrightarrow>
      extractAPIKey h =
        (if HasPrefix (Header_Get h ''Authorization'') ''Bearer '' then drop 7 (Header_Get h ''Authorization'')
         else Header_Get h ''Authorization'') \<and>
      extractAPIKey (h(''X-Api-Key'' := x)) = extractAPIKey h) \<and>
   (Header_Get h ''Authorization'' = ''Bearer '' @ rest \<longrightarrow> extractAPIKey h = rest) \<and>
   (Header_Get h ''Authorization'' = [] \<longrightarrow> extractAPIKey h = Header_Get h ''X-Api-Key'')"
proof -
  have l: "length ''Bearer '' = 7" by simp
  have g: "Header_Get (h(''X-Api-Key'' := x)) ''Authorization'' = Header_Get h ''Authorization''"
    by (simp add: Header_Get_def)
  have a: "Header_Get h ''Authorization'' \<noteq> [] \<Longrightarrow>
      extractAPIKey h =
        (if HasPrefix (Header_Get h ''Authorization'') ''Bearer '' then drop 7 (Header_Get h ''Authorization'')
         else Header_Get h ''Authorization'')"
    unfolding extractAPIKey_def Let_def TrimPrefix_def l by simp
  have b: "Header_Get h ''Authorization'' \<noteq> [] \<Longrightarrow> extractAPIKey (h(''X-Api-Key'' := x)) = extractAPIKey h"
    unfolding extractAPIKey_def g by (simp add: Let_def)
  have c: "Header_Get h ''Authorization'' = ''Bearer '' @ rest \<Longrightarrow> extractAPIKey h = rest"
    by (simp add: extractAPIKey_def Let_def TrimPrefix_def HasPrefix_def)
  have d: "Header_Get h ''Authorization'' = [] \<Longrightarrow> extractAPIKey h = Header_Get h ''X-Api-Key''"
    by (simp add: extractAPIKey_def Let_def)
  show ?thesis using a b c d by blast
qed

theorem extractAPIKey_precedence_witness:
  "extractAPIKey [''Authorization'' \<mapsto> [''Bearer secret''], ''X-Api-Key'' \<mapsto> [''other'']] = ''secret'' \<and>
   extractAPIKey [''Authorization'' \<mapsto> [''Bearer secret'']] = ''secret'' \<and>
   extractAPIKey [''Authorization'' \<mapsto> [''rawkey''], ''X-Api-Key'' \<mapsto> [''other'']] = ''rawkey'' \<and>
   extractAPIKey [''X-Api-Key'' \<mapsto> [''other'']] = ''other''"
proof -
  let ?h1 = "[''Authorization'' \<mapsto> [''Bearer secret'']] :: Header"
  let ?h2 = "[''Authorization'' \<mapsto> [''rawkey'']] :: Header"
  let ?h3 = "[''X-Api-Key'' \<mapsto> [''other'']] :: Header"
  have g1: "Header_Get ?h1 ''Authorization'' = ''Bearer '' @ ''secret''" by (simp add: Header_Get_def)
  have g2: "Header_Get ?h2 ''Authorization'' = ''rawkey''" by (simp add: Header_Get_def)
  have g3: "Header_Get ?h3 ''Authorization'' = []" by (simp add: Header_Get_def)
  have g3': "Header_Get ?h3 ''X-Api-Key'' = ''other''" by (simp add: Header_Get_def)
  have np: "\<not> HasPrefix ''rawkey'' ''Bearer ''" by (simp add: HasPrefix_def)
  note t1 = extractAPIKey_precedence[where h = ?h1 and x = "Some [''other'']" and rest = "''secret''"]
  note t2 = extractAPIKey_precedence[where h = ?h2 and x = "Some [''other'']" and rest = "[]"]
  note t3 = extractAPIKey_precedence[where h = ?h3 and x = None and rest = "[]"]
  from t1 g1 have a: "extractAPIKey ?h1 = ''secret''" by blast
  from t1 g1 have a': "extractAPIKey (?h1(''X-Api-Key'' \<mapsto> [''other''])) = extractAPIKey ?h1" by simp
  from t2 g2 np have b: "extractAPIKey ?h2 = ''rawkey''" by simp
  from t2 g2 have b': "extractAPIKey (?h2(''X-Api-Key'' \<mapsto> [''other''])) = extractAPIKey ?h2" by simp
  from t3 g3 g3' have c: "extractAPIKey ?h3 = ''other''" by simp
  show ?thesis using a a' b b' c by simp
qed

subsection \<open>The lookup hides inactive records\<close>

lemma find_filter_weaker: "find (\<lambda>x. R x \<and> Q x) (filter Q xs) = find (\<lambda>x. R x \<and> Q x) xs"
  by (induction xs) auto

lemma find_None_iff': "find P xs = None \<longleftrightarrow> (\<forall>x\<in>set xs. \<not> P x)"
  by (induction xs) auto

lemma GetAPIKey_Some: "GetAPIKey db h = Inr (Some r) \<Longrightarrow> IsActive r \<and> KeyHash r = h \<and> r \<in> set (api_keys db)"
  by (auto simp: GetAPIKey_def find_Some_iff split: if_splits)

lemma GetAPIKey_drop_inactive:
  "GetAPIKey (db\<lparr>api_keys := filter IsActive (api_keys db)\<rparr>) h = GetAPIKey db h"
  by (simp add: GetAPIKey_def find_filter_weaker)

lemma AuthMiddleware_store:
  assumes e: "GetAPIKey db' = GetAPIKey db"
  shows "AuthMiddleware sha now as db' hdr = AuthMiddleware sha now as db hdr"
  unfolding AuthMiddleware_def e by (rule refl)

lemma AuthMiddleware_invalid_iff:
  "outcome (AuthMiddleware sha now as db hdr) = Abort invalid_or_inactive \<longleftrightarrow>
     extractAPIKey hdr \<noteq> [] \<and> \<not> map_read (apiKeys as) (hashAPIKey sha (extractAPIKey hdr)) \<and>
     GetAPIKey db (hashAPIKey sha (extractAPIKey hdr)) = Inr None"
  by (auto simp: AuthMiddleware_def Let_def isValidCachedKey_def refreshCache_def invalid_or_inactive_def
      split: sum.splits option.splits dest: GetAPIKey_Some)

text \<open>
  Claim C9. The lookup never returns an inactive record; removing the inactive records
  from the store changes no lookup; with only inactive records of a hash, in a reachable
  store, the answer is no record and no error. The middleware sends the rejection
  \<open>Invalid or inactive API key\<close> exactly when the lookup returned no record, so the test
  of \<open>IsActive\<close> never decides, and the middleware answers the same with and without
  the inactive records.
\<close>

theorem GetAPIKey_never_returns_inactive:
  "(\<forall>r. GetAPIKey db h = Inr (Some r) \<longrightarrow> IsActive r \<and> KeyHash r = h) \<and>
   GetAPIKey (db\<lparr>api_keys := filter IsActive (api_keys db)\<rparr>) h = GetAPIKey db h \<and>
   ((\<forall>k\<in>set (api_keys db). KeyHash k = h \<longrightarrow> \<not> IsActive k) \<and> \<not> io_fails db OpQueryRow \<longrightarrow>
      GetAPIKey db h = Inr None) \<and>
   (outcome (AuthMiddleware sha now as db hdr) = Abort invalid_or_inactive \<longleftrightarrow>
      extractAPIKey hdr \<noteq> [] \<and> \<not> map_read (apiKeys as) (hashAPIKey sha (extractAPIKey hdr)) \<and>
      GetAPIKey db (hashAPIKey sha (extractAPIKey hdr)) = Inr None) \<and>
   AuthMiddleware sha now as (db\<lparr>api_keys := filter IsActive (api_keys db)\<rparr>) hdr =
     AuthMiddleware sha now as db hdr"
proof -
  have a: "\<forall>r. GetAPIKey db h = Inr (Some r) \<longrightarrow> IsActive r \<and> KeyHash r = h"
    using GetAPIKey_Some by blast
  have c: "(\<forall>k\<in>set (api_keys db). KeyHash k = h \<longrightarrow> \<not> IsActive k) \<and> \<not> io_fails db OpQueryRow \<Longrightarrow>
      GetAPIKey db h = Inr None"
    by (auto simp: GetAPIKey_def find_None_iff')
  have e: "AuthMiddleware sha now as (db\<lparr>api_keys := filter IsActive (api_keys db)\<rparr>) hdr =
     AuthMiddleware sha now as db hdr"
    by (rule AuthMiddleware_store) (rule ext, rule GetAPIKey_drop_inactive)
  show ?thesis using a c e GetAPIKey_drop_inactive AuthMiddleware_invalid_iff by blast
qed

theorem GetAPIKey_never_returns_inactive_witness:
  "GetAPIKey (example_store [example_key ''h1'' False None]) ''h1'' = Inr None \<and>
   GetAPIKey (example_store []) ''h1'' = Inr None \<and>
   GetAPIKey (example_store [example_key ''h1'' True None]) ''h1'' = Inr (Some (example_key ''h1'' True None)) \<and>
   IsActive (example_key ''h1'' True None)"
proof -
  let ?db = "example_store [example_key ''h1'' False None]"
  let ?db1 = "example_store [example_key ''h1'' True None]"
  have p: "(\<forall>k\<in>set (api_keys ?db). KeyHash k = ''h1'' \<longrightarrow> \<not> IsActive k) \<and> \<not> io_fails ?db OpQueryRow"
    by (simp add: example_store_def example_key_def)
  have q: "(\<forall>k\<in>set (api_keys (example_store [])). KeyHash k = ''h1'' \<longrightarrow> \<not> IsActive k) \<and>
           \<not> io_fails (example_store []) OpQueryRow"
    by (simp add: example_store_def)
  have r: "GetAPIKey ?db1 ''h1'' = Inr (Some (example_key ''h1'' True None))"
    by (simp add: GetAPIKey_def example_store_def example_key_def)
  note t = GetAPIKey_never_returns_inactive[where db = ?db and h = "''h1''" and sha = example_digest and now = 0
      and as = NewAuthService and hdr = Map.empty]
  note u = GetAPIKey_never_returns_inactive[where db = "example_store []" and h = "''h1''" and sha = example_digest
      and now = 0 and as = NewAuthService and hdr = Map.empty]
  note v = GetAPIKey_never_returns_inactive[where db = ?db1 and h = "''h1''" and sha = example_digest and now = 0
      and as = NewAuthService and hdr = Map.empty]
  from t p have a: "GetAPIKey ?db ''h1'' = Inr None" by blast
  from u q have b: "GetAPIKey (example_store []) ''h1'' = Inr None" by blast
  from v r have c: "IsActive (example_key ''h1'' True None)" by blast
  show ?thesis using a b c r by simp
qed

subsection \<open>Bootstrap\<close>

text \<open>
  Claim C4 at a store that holds an inactive record of the configured key: the lookup
  hides that record, so the bootstrap inserts, the \<open>UNIQUE\<close> constraint on
  \<open>key_hash\<close> refuses, and the bootstrap returns the error, with the cache untouched.
\<close>

theorem InitializeAPIKeys_fails_on_inactive_record:
  "InitializeAPIKeys sha today now [key] NewAuthService (example_store [example_key (sha key) False None]) =
     (Some (Wrap ''failed to insert API key'' (Wrap ''failed to insert API key'' (Pq (UniqueViolation ''key_hash'')))),
      NewAuthService, example_store [example_key (sha key) False None])"
  by (simp add: InitializeAPIKeys_def hashAPIKey_def GetAPIKey_def InsertAPIKey_def example_store_def
      example_key_def)

text \<open>
  Where the configured keys have no inactive record, the bootstrap does what the
  specification asks: it returns no error, marks every configured hash in the cache,
  keeps the hashes of the table distinct, and a second run with the same keys returns no
  error and leaves the table as the first run left it.
\<close>

lemma InitializeAPIKeys_loop_keeps:
  "map_read (apiKeys as) k \<Longrightarrow>
   map_read (apiKeys (fst (snd (InitializeAPIKeys_loop sha today now keys as db)))) k"
proof (induction keys arbitrary: as db)
  case Nil
  then show ?case by simp
next
  case (Cons key keys)
  let ?as = "as\<lparr>apiKeys := (apiKeys as)(hashAPIKey sha key \<mapsto> True)\<rparr>"
  from Cons.prems have m: "map_read (apiKeys ?as) k" by (simp add: map_read_def)
  show ?case
    using Cons.prems Cons.IH[OF m]
    by (simp add: Let_def split: sum.splits option.splits prod.splits)
qed

lemma InitializeAPIKeys_loop_active:
  assumes "\<not> io_fails db OpQueryRow"
    and "\<forall>k\<in>set (api_keys db). KeyHash k \<in> S \<longrightarrow> IsActive k"
    and "hashAPIKey sha ` set keys \<subseteq> S"
  shows "\<exists>as' db'. InitializeAPIKeys_loop sha today now keys as db = (None, as', db') \<and>
           \<not> io_fails db' OpQueryRow \<and>
           (\<forall>k\<in>set (api_keys db'). KeyHash k \<in> S \<longrightarrow> IsActive k) \<and>
           set (api_keys db) \<subseteq> set (api_keys db') \<and>
           (\<forall>key\<in>set keys. \<exists>r\<in>set (api_keys db'). KeyHash r = hashAPIKey sha key \<and> IsActive r) \<and>
           (distinct (map KeyHash (api_keys db)) \<longrightarrow> distinct (map KeyHash (api_keys db'))) \<and>
           (\<forall>key\<in>set keys. map_read (apiKeys as') (hashAPIKey sha key))"
  using assms
proof (induction keys arbitrary: as db)
  case Nil
  then show ?case by simp
next
  case (Cons key keys)
  let ?kh = "hashAPIKey sha key"
  let ?as = "as\<lparr>apiKeys := (apiKeys as)(?kh \<mapsto> True)\<rparr>"
  have khS: "?kh \<in> S" using Cons.prems(3) by auto
  have rest: "hashAPIKey sha ` set keys \<subseteq> S" using Cons.prems(3) by auto
  have cached: "map_read (apiKeys ?as) ?kh" by (simp add: map_read_def)
  show ?case
  proof (cases "find (\<lambda>k. KeyHash k = ?kh \<and> IsActive k) (api_keys db)")
    case (Some r)
    then have r: "r \<in> set (api_keys db)" "KeyHash r = ?kh" "IsActive r"
      by (auto simp: find_Some_iff)
    from Some Cons.prems(1)
    have step: "InitializeAPIKeys_loop sha today now (key # keys) as db =
                InitializeAPIKeys_loop sha today now keys ?as db"
      by (simp add: GetAPIKey_def Let_def)
    from Cons.IH[OF Cons.prems(1) Cons.prems(2) rest, of ?as]
    obtain as' db' where ih: "InitializeAPIKeys_loop sha today now keys ?as db = (None, as', db')"
      "\<not> io_fails db' OpQueryRow" "\<forall>k\<in>set (api_keys db'). KeyHash k \<in> S \<longrightarrow> IsActive k"
      "set (api_keys db) \<subseteq> set (api_keys db')"
      "\<forall>key\<in>set keys. \<exists>r\<in>set (api_keys db'). KeyHash r = hashAPIKey sha key \<and> IsActive r"
      "distinct (map KeyHash (api_keys db)) \<longrightarrow> distinct (map KeyHash (api_keys db'))"
      "\<forall>key\<in>set keys. map_read (apiKeys as') (hashAPIKey sha key)"
      by blast
    have c: "map_read (apiKeys as') ?kh"
      using InitializeAPIKeys_loop_keeps[OF cached, of sha today now keys db] ih(1) by simp
    have e: "\<exists>r\<in>set (api_keys db'). KeyHash r = ?kh \<and> IsActive r" using r ih(4) by blast
    show ?thesis unfolding step using ih c e by auto
  next
    case None
    then have absent: "?kh \<notin> set (map KeyHash (api_keys db))"
      using Cons.prems(2) khS by (auto simp: find_None_iff)
    let ?row = "\<lparr>ID = int (length (api_keys db)) + 1, KeyHash = ?kh, Name = ''Auto-generated key '' @ today,
                 IsActive = True, CreatedAt = now, LastUsedAt = None, ExpiresAt = None, UsageCount = 0\<rparr>"
    let ?db1 = "db\<lparr>api_keys := api_keys db @ [?row]\<rparr>"
    from None absent Cons.prems(1)
    have step: "InitializeAPIKeys_loop sha today now (key # keys) as db =
                InitializeAPIKeys_loop sha today now keys ?as ?db1"
      by (simp add: GetAPIKey_def InsertAPIKey_def Let_def)
    have p1: "\<not> io_fails ?db1 OpQueryRow" using Cons.prems(1) by simp
    have p2: "\<forall>k\<in>set (api_keys ?db1). KeyHash k \<in> S \<longrightarrow> IsActive k" using Cons.prems(2) by auto
    from Cons.IH[OF p1 p2 rest, of ?as]
    obtain as' db' where ih: "InitializeAPIKeys_loop sha today now keys ?as ?db1 = (None, as', db')"
      "\<not> io_fails db' OpQueryRow" "\<forall>k\<in>set (api_keys db'). KeyHash k \<in> S \<longrightarrow> IsActive k"
      "set (api_keys ?db1) \<subseteq> set (api_keys db')"
      "\<forall>key\<in>set keys. \<exists>r\<in>set (api_keys db'). KeyHash r = hashAPIKey sha key \<and> IsActive r"
      "distinct (map KeyHash (api_keys ?db1)) \<longrightarrow> distinct (map KeyHash (api_keys db'))"
      "\<forall>key\<in>set keys. map_read (apiKeys as') (hashAPIKey sha key)"
      by blast
    have c: "map_read (apiKeys as') ?kh"
      using InitializeAPIKeys_loop_keeps[OF cached, of sha today now keys ?db1] ih(1) by simp
    have "?row \<in> set (api_keys db')" using ih(4) by auto
    then have e: "\<exists>r\<in>set (api_keys db'). KeyHash r = ?kh \<and> IsActive r" by force
    have s: "set (api_keys db) \<subseteq> set (api_keys db')" using ih(4) by auto
    have d: "distinct (map KeyHash (api_keys db)) \<longrightarrow> distinct (map KeyHash (api_keys db'))"
      using ih(6) absent by auto
    show ?thesis unfolding step using ih(1,2,3,5,7) c e s d by auto
  qed
qed

lemma InitializeAPIKeys_loop_present:
  assumes "\<not> io_fails db OpQueryRow"
    and "\<forall>key\<in>set keys. \<exists>r\<in>set (api_keys db). KeyHash r = hashAPIKey sha key \<and> IsActive r"
  shows "\<exists>as'. InitializeAPIKeys_loop sha today now keys as db = (None, as', db)"
  using assms
proof (induction keys arbitrary: as)
  case Nil
  then show ?case by simp
next
  case (Cons key keys)
  let ?kh = "hashAPIKey sha key"
  from Cons.prems(2) have "\<exists>r\<in>set (api_keys db). KeyHash r = ?kh \<and> IsActive r" by simp
  then have "find (\<lambda>k. KeyHash k = ?kh \<and> IsActive k) (api_keys db) \<noteq> None"
    by (auto simp: find_None_iff)
  then obtain r where "find (\<lambda>k. KeyHash k = ?kh \<and> IsActive k) (api_keys db) = Some r" by auto
  with Cons.prems(1)
  have step: "InitializeAPIKeys_loop sha today now (key # keys) as db =
              InitializeAPIKeys_loop sha today now keys (as\<lparr>apiKeys := (apiKeys as)(?kh \<mapsto> True)\<rparr>) db"
    by (simp add: GetAPIKey_def Let_def)
  from Cons.prems(2) have "\<forall>key\<in>set keys. \<exists>r\<in>set (api_keys db). KeyHash r = hashAPIKey sha key \<and> IsActive r"
    by simp
  from Cons.IH[OF Cons.prems(1) this] show ?case unfolding step by blast
qed

lemma InitializeAPIKeys_idempotent_when_active:
  assumes "\<not> io_fails db OpQueryRow"
    and "\<forall>k\<in>set (api_keys db). KeyHash k \<in> hashAPIKey sha ` set keys \<longrightarrow> IsActive k"
  shows "\<exists>as1 db1 as2.
           InitializeAPIKeys sha today now keys as db = (None, as1, db1) \<and>
           (\<forall>key\<in>set keys. map_read (apiKeys as1) (hashAPIKey sha key)) \<and>
           (distinct (map KeyHash (api_keys db)) \<longrightarrow> distinct (map KeyHash (api_keys db1))) \<and>
           InitializeAPIKeys sha today' now' keys as1 db1 = (None, as2, db1)"
proof -
  from InitializeAPIKeys_loop_active[OF assms(1) assms(2) subset_refl, of today now as]
  obtain as' db' where l: "InitializeAPIKeys_loop sha today now keys as db = (None, as', db')"
      "\<not> io_fails db' OpQueryRow"
      "\<forall>key\<in>set keys. \<exists>r\<in>set (api_keys db'). KeyHash r = hashAPIKey sha key \<and> IsActive r"
      "distinct (map KeyHash (api_keys db)) \<longrightarrow> distinct (map KeyHash (api_keys db'))"
      "\<forall>key\<in>set keys. map_read (apiKeys as') (hashAPIKey sha key)"
    by blast
  let ?as1 = "as'\<lparr>lastSync := now\<rparr>"
  from l(1) have r1: "InitializeAPIKeys sha today now keys as db = (None, ?as1, db')"
    by (simp add: InitializeAPIKeys_def)
  from InitializeAPIKeys_loop_present[OF l(2) l(3), of today' now' ?as1]
  obtain as'' where "InitializeAPIKeys_loop sha today' now' keys ?as1 db' = (None, as'', db')" by blast
  then have r2: "InitializeAPIKeys sha today' now' keys ?as1 db' = (None, as''\<lparr>lastSync := now'\<rparr>, db')"
    by (simp add: InitializeAPIKeys_def)
  from l(5) have c: "\<forall>key\<in>set keys. map_read (apiKeys ?as1) (hashAPIKey sha key)" by simp
  show ?thesis using r1 r2 c l(4) by blast
qed

subsection \<open>What one request does to the cache\<close>

lemma AuthMiddleware_effect:
  fixes sha now as db hdr
  defines "st \<equiv> AuthMiddleware sha now as db hdr"
  defines "kh \<equiv> hashAPIKey sha (extractAPIKey hdr)"
  shows "(apiKeys (service st) = apiKeys as \<and>
          (\<forall>k. outcome st = Next k \<longrightarrow> k = kh \<and> map_read (apiKeys as) kh \<and> lookups st = [])) \<or>
         (apiKeys (service st) = (apiKeys as)(kh \<mapsto> True) \<and> outcome st = Next kh \<and> lookups st = [kh] \<and>
          \<not> map_read (apiKeys as) kh \<and> confirmed_valid db now kh)"
  unfolding st_def kh_def
  by (auto simp: AuthMiddleware_def Let_def isValidCachedKey_def refreshCache_def confirmed_valid_def
      split: sum.splits option.splits dest: GetAPIKey_Some)

lemma AuthMiddleware_expired:
  assumes "outcome (AuthMiddleware sha now as db hdr) = Abort key_expired"
  shows "\<not> map_read (apiKeys as) (hashAPIKey sha (extractAPIKey hdr)) \<and>
         lookups (AuthMiddleware sha now as db hdr) = [hashAPIKey sha (extractAPIKey hdr)] \<and>
         \<not> confirmed_valid db now (hashAPIKey sha (extractAPIKey hdr))"
  using assms
  by (auto simp: AuthMiddleware_def Let_def isValidCachedKey_def refreshCache_def confirmed_valid_def
      key_expired_def split: sum.splits option.splits if_splits)

lemma map_read_upd_other: "k \<noteq> k' \<Longrightarrow> map_read (m(k' \<mapsto> v)) k = map_read m k"
  by (simp add: map_read_def)

lemma first_acceptance_checks_store:
  "\<not> map_read (apiKeys as) kh \<Longrightarrow> find (\<lambda>s. outcome s = Next kh) (serve sha as rs) = Some s \<Longrightarrow>
   lookups s = [kh]"
proof (induction rs arbitrary: as)
  case Nil
  then show ?case by simp
next
  case (Cons r rs)
  obtain now db hdr where r: "r = (now, db, hdr)" by (cases r) auto
  let ?st = "AuthMiddleware sha now as db hdr"
  note eff = AuthMiddleware_effect[of sha now as db hdr]
  show ?case
  proof (cases "outcome ?st = Next kh")
    case True
    with Cons.prems(2) r have s: "s = ?st" by (simp add: Let_def)
    from eff True Cons.prems(1) have "lookups ?st = [kh]" by auto
    with s show ?thesis by simp
  next
    case False
    from eff False Cons.prems(1) have n: "\<not> map_read (apiKeys (service ?st)) kh"
      by (auto simp: map_read_upd_other)
    from Cons.prems(2) r False
    have "find (\<lambda>s. outcome s = Next kh) (serve sha (service ?st) rs) = Some s"
      by (simp add: Let_def)
    with n show ?thesis by (rule Cons.IH)
  qed
qed

lemma InitializeAPIKeys_loop_cache:
  "map_read (apiKeys (fst (snd (InitializeAPIKeys_loop sha today now keys as db)))) k \<Longrightarrow>
   map_read (apiKeys as) k \<or> k \<in> hashAPIKey sha ` set keys"
proof (induction keys arbitrary: as db)
  case Nil
  then show ?case by simp
next
  case (Cons key keys)
  let ?as = "as\<lparr>apiKeys := (apiKeys as)(hashAPIKey sha key \<mapsto> True)\<rparr>"
  have up: "\<And>k. map_read (apiKeys ?as) k \<Longrightarrow> map_read (apiKeys as) k \<or> k = hashAPIKey sha key"
    by (simp add: map_read_def split: if_splits)
  show ?case
  proof (cases "GetAPIKey db (hashAPIKey sha key)")
    case (Inl e)
    with Cons.prems show ?thesis by (simp add: Let_def)
  next
    case (Inr found)
    show ?thesis
    proof (cases found)
      case (Some existing)
      with Inr Cons.prems
      have "map_read (apiKeys (fst (snd (InitializeAPIKeys_loop sha today now keys ?as db)))) k"
        by (simp add: Let_def)
      then have "map_read (apiKeys ?as) k \<or> k \<in> hashAPIKey sha ` set keys" by (rule Cons.IH)
      then show ?thesis using up by auto
    next
      case None
      let ?new = "\<lparr>ID = 0, KeyHash = hashAPIKey sha key, Name = ''Auto-generated key '' @ today, IsActive = True,
                   CreatedAt = zero_time, LastUsedAt = None, ExpiresAt = None, UsageCount = 0\<rparr>"
      show ?thesis
      proof (cases "InsertAPIKey db now ?new")
        case (Inl e)
        with None Inr Cons.prems show ?thesis by (simp add: Let_def)
      next
        case (Inr res)
        obtain apiKey db' where res: "res = (apiKey, db')" by (cases res) auto
        with Inr None \<open>GetAPIKey db (hashAPIKey sha key) = Inr found\<close> Cons.prems
        have "map_read (apiKeys (fst (snd (InitializeAPIKeys_loop sha today now keys ?as db')))) k"
          by (simp add: Let_def)
        then have "map_read (apiKeys ?as) k \<or> k \<in> hashAPIKey sha ` set keys" by (rule Cons.IH)
        then show ?thesis using up by auto
      qed
    qed
  qed
qed

lemma InitializeAPIKeys_cache:
  "map_read (apiKeys (fst (snd (InitializeAPIKeys sha today now keys as db)))) k \<Longrightarrow>
   map_read (apiKeys as) k \<or> k \<in> hashAPIKey sha ` set keys"
proof -
  assume a: "map_read (apiKeys (fst (snd (InitializeAPIKeys sha today now keys as db)))) k"
  obtain e as' db' where l: "InitializeAPIKeys_loop sha today now keys as db = (e, as', db')"
    by (cases "InitializeAPIKeys_loop sha today now keys as db") auto
  with a have "map_read (apiKeys as') k"
    by (cases e) (simp_all add: InitializeAPIKeys_def)
  with l have "map_read (apiKeys (fst (snd (InitializeAPIKeys_loop sha today now keys as db)))) k" by simp
  then show ?thesis by (rule InitializeAPIKeys_loop_cache)
qed

text \<open>
  Claim C3. One run of the middleware leaves the map of valid hashes as it was, or adds
  the hash of the presented key after the store confirmed it (found, active, not expired)
  in this very request. Every aborted request leaves the map unchanged. After a rejection
  as expired the hash is not in the map, and over every later stream of requests, at any
  instants and store states, the first request accepted for that hash is one that looked
  it up in the store. The bootstrap adds only hashes of configured keys. (The map is the
  cache of valid hashes; the staleness clock \<open>lastSync\<close> may be reset by any request.
  The administrative \<open>GenerateAPIKey\<close> and \<open>RevokeAPIKey\<close>, which no route of the
  service calls, are not part of the validator.)
\<close>

theorem cache_holds_only_confirmed_keys:
  "(apiKeys (service (AuthMiddleware sha now as db hdr)) = apiKeys as \<or>
      apiKeys (service (AuthMiddleware sha now as db hdr)) =
        (apiKeys as)(hashAPIKey sha (extractAPIKey hdr) \<mapsto> True) \<and>
      outcome (AuthMiddleware sha now as db hdr) = Next (hashAPIKey sha (extractAPIKey hdr)) \<and>
      lookups (AuthMiddleware sha now as db hdr) = [hashAPIKey sha (extractAPIKey hdr)] \<and>
      confirmed_valid db now (hashAPIKey sha (extractAPIKey hdr))) \<and>
   (\<forall>resp. outcome (AuthMiddleware sha now as db hdr) = Abort resp \<longrightarrow>
      apiKeys (service (AuthMiddleware sha now as db hdr)) = apiKeys as) \<and>
   (outcome (AuthMiddleware sha now as db hdr) = Abort key_expired \<longrightarrow>
      \<not> map_read (apiKeys (service (AuthMiddleware sha now as db hdr))) (hashAPIKey sha (extractAPIKey hdr)) \<and>
      (\<forall>rs s. find (\<lambda>s. outcome s = Next (hashAPIKey sha (extractAPIKey hdr)))
                 (serve sha (service (AuthMiddleware sha now as db hdr)) rs) = Some s \<longrightarrow>
         lookups s = [hashAPIKey sha (extractAPIKey hdr)])) \<and>
   (\<forall>k. map_read (apiKeys (fst (snd (InitializeAPIKeys sha today now keys as db)))) k \<longrightarrow>
      map_read (apiKeys as) k \<or> k \<in> hashAPIKey sha ` set keys)"
proof -
  let ?st = "AuthMiddleware sha now as db hdr"
  let ?kh = "hashAPIKey sha (extractAPIKey hdr)"
  note eff = AuthMiddleware_effect[of sha now as db hdr]
  have a: "apiKeys (service ?st) = apiKeys as \<or>
      apiKeys (service ?st) = (apiKeys as)(?kh \<mapsto> True) \<and> outcome ?st = Next ?kh \<and> lookups ?st = [?kh] \<and>
      confirmed_valid db now ?kh"
    using eff by blast
  have b: "\<forall>resp. outcome ?st = Abort resp \<longrightarrow> apiKeys (service ?st) = apiKeys as"
    using eff by auto
  have c: "outcome ?st = Abort key_expired \<Longrightarrow>
      \<not> map_read (apiKeys (service ?st)) ?kh \<and>
      (\<forall>rs s. find (\<lambda>s. outcome s = Next ?kh) (serve sha (service ?st) rs) = Some s \<longrightarrow> lookups s = [?kh])"
  proof -
    assume x: "outcome ?st = Abort key_expired"
    with b have "apiKeys (service ?st) = apiKeys as" by blast
    moreover from x have "\<not> map_read (apiKeys as) ?kh" using AuthMiddleware_expired by blast
    ultimately have n: "\<not> map_read (apiKeys (service ?st)) ?kh" by simp
    then show ?thesis using first_acceptance_checks_store by blast
  qed
  have d: "\<forall>k. map_read (apiKeys (fst (snd (InitializeAPIKeys sha today now keys as db)))) k \<longrightarrow>
      map_read (apiKeys as) k \<or> k \<in> hashAPIKey sha ` set keys"
    using InitializeAPIKeys_cache by blast
  show ?thesis using a b c d by blast
qed

theorem cache_holds_only_confirmed_keys_witness:
  "outcome (AuthMiddleware example_digest 10 NewAuthService
      (example_store [example_key ''sha256:k'' True (Some 5)]) [''X-Api-Key'' \<mapsto> [''k'']]) = Abort key_expired \<and>
   apiKeys (service (AuthMiddleware example_digest 10 NewAuthService
      (example_store [example_key ''sha256:k'' True (Some 5)]) [''X-Api-Key'' \<mapsto> [''k'']])) = Map.empty \<and>
   map lookups (serve example_digest (service (AuthMiddleware example_digest 10 NewAuthService
      (example_store [example_key ''sha256:k'' True (Some 5)]) [''X-Api-Key'' \<mapsto> [''k'']]))
      [(20, example_store [example_key ''sha256:k'' True (Some 100)], [''X-Api-Key'' \<mapsto> [''k'']]),
       (30, example_store [example_key ''sha256:k'' True (Some 100)], [''X-Api-Key'' \<mapsto> [''k'']])]) =
     [[''sha256:k''], []]"
proof -
  let ?hdr = "[''X-Api-Key'' \<mapsto> [''k'']] :: Header"
  let ?db = "example_store [example_key ''sha256:k'' True (Some 5)]"
  let ?db' = "example_store [example_key ''sha256:k'' True (Some 100)]"
  let ?st = "AuthMiddleware example_digest 10 NewAuthService ?db ?hdr"
  let ?rs = "[(20, ?db', ?hdr), (30, ?db', ?hdr)]"
  have k: "hashAPIKey example_digest (extractAPIKey ?hdr) = ''sha256:k''"
    by (simp add: hashAPIKey_def example_digest_def extractAPIKey_def Header_Get_def)
  have st: "?st = \<lparr>outcome = Abort key_expired, service = \<lparr>apiKeys = Map.empty, lastSync = 10\<rparr>,
                   lookups = [''sha256:k''], spawned = []\<rparr>"
    by (simp add: AuthMiddleware_def Let_def hashAPIKey_def example_digest_def isValidCachedKey_def
        refreshCache_def NewAuthService_def zero_time_def five_minutes_def map_read_def GetAPIKey_def
        example_store_def example_key_def key_expired_def extractAPIKey_def Header_Get_def)
  have o: "outcome ?st = Abort key_expired" by (simp add: st)
  note t = cache_holds_only_confirmed_keys[where sha = example_digest and now = 10 and as = NewAuthService
      and db = ?db and hdr = ?hdr and today = "''2024-01-01''" and keys = "[]"]
  from t o have c: "apiKeys (service ?st) = apiKeys NewAuthService" by blast
  have sv: "map (\<lambda>s. (outcome s, lookups s)) (serve example_digest (service ?st) ?rs) =
      [(Next ''sha256:k'', [''sha256:k'']), (Next ''sha256:k'', [])]"
    unfolding st
    by (simp add: AuthMiddleware_def Let_def hashAPIKey_def example_digest_def isValidCachedKey_def
        refreshCache_def five_minutes_def map_read_def GetAPIKey_def example_store_def example_key_def
        extractAPIKey_def Header_Get_def)
  then have "map lookups (serve example_digest (service ?st) ?rs) = [[''sha256:k''], []]"
    by (simp add: Let_def)
  with o c show ?thesis by (simp add: NewAuthService_def)
qed

section \<open>Verification: batch ingestion\<close>

subsection \<open>The size checks\<close>

lemma show_nat_1000: "show_nat 1000 = ''1000''"
  by code_simp

text \<open>
  Claim C6. An empty decoded list is answered with \<open>empty_batch\<close> and a list of more
  than 1000 logs with \<open>batch_too_large\<close>; either way the store is as before and no batch
  was handed to \<open>InsertLogsBatch\<close>.
\<close>

theorem batch_size_rejected_before_store:
  "(logs = [] \<longrightarrow>
      IngestBatch db now (Some logs) =
        (JSON 400 (ErrorResponse ''empty_batch'' ''Batch cannot be empty'' []), db, [])) \<and>
   (length logs > 1000 \<longrightarrow>
      IngestBatch db now (Some logs) =
        (JSON 400 (ErrorResponse ''batch_too_large'' ''Batch size cannot exceed 1000 logs'' []), db, []))"
  by (simp add: IngestBatch_def maxBatchSize_def show_nat_1000)

theorem batch_size_rejected_before_store_witness:
  "IngestBatch (example_store []) 0 (Some []) =
     (JSON 400 (ErrorResponse ''empty_batch'' ''Batch cannot be empty'' []), example_store [], []) \<and>
   IngestBatch (example_store []) 0 (Some (replicate 1001 (example_log ''e1''))) =
     (JSON 400 (ErrorResponse ''batch_too_large'' ''Batch size cannot exceed 1000 logs'' []), example_store [], [])"
proof -
  have l: "length (replicate 1001 (example_log ''e1'')) > 1000" by simp
  note t = batch_size_rejected_before_store[where db = "example_store []" and now = 0 and logs = "[]"]
  note u = batch_size_rejected_before_store[where db = "example_store []" and now = 0
      and logs = "replicate 1001 (example_log ''e1'')"]
  from t have a: "IngestBatch (example_store []) 0 (Some []) =
     (JSON 400 (ErrorResponse ''empty_batch'' ''Batch cannot be empty'' []), example_store [], [])" by blast
  from u l have b: "IngestBatch (example_store []) 0 (Some (replicate 1001 (example_log ''e1''))) =
     (JSON 400 (ErrorResponse ''batch_too_large'' ''Batch size cannot exceed 1000 logs'' []), example_store [], [])"
    by blast
  from a b show ?thesis by blast
qed

subsection \<open>The validation loop\<close>

lemma validate_loop_eq:
  "validate_loop now i logs errs valid =
     (errs @ concat (map (\<lambda>(j, l). map (tag_index j) (formatValidationErrors (Struct (setDefaultValues now l))))
                         (enumerate i logs)),
      valid @ filter (\<lambda>l. Struct l = []) (map (setDefaultValues now) logs))"
proof (induction logs arbitrary: i errs valid)
  case Nil
  then show ?case by simp
next
  case (Cons l ls)
  show ?case
  proof (cases "Struct (setDefaultValues now l) = []")
    case True
    then show ?thesis using Cons.IH[of "Suc i" errs "valid @ [setDefaultValues now l]"]
      by (simp add: Let_def formatValidationErrors_def)
  next
    case False
    then show ?thesis
      using Cons.IH[of "Suc i" "errs @ map (tag_index i) (formatValidationErrors (Struct (setDefaultValues now l)))" valid]
      by (simp add: Let_def)
  qed
qed

lemma validate_loop_batch:
  "validate_loop now 0 logs [] [] =
     (batch_errors now logs, filter (\<lambda>l. Struct l = []) (map (setDefaultValues now) logs))"
  by (simp add: validate_loop_eq batch_errors_def)

lemma batch_errors_empty_iff:
  "batch_errors now logs = [] \<longleftrightarrow> (\<forall>l\<in>set logs. Struct (setDefaultValues now l) = [])"
proof -
  have "\<And>i. concat (map (\<lambda>(j, l). map (tag_index j) (formatValidationErrors (Struct (setDefaultValues now l))))
                 (enumerate i logs)) = [] \<longleftrightarrow> (\<forall>l\<in>set logs. Struct (setDefaultValues now l) = [])"
    by (induction logs) (auto simp: formatValidationErrors_def)
  then show ?thesis by (simp add: batch_errors_def)
qed

lemma batch_errors_complete:
  assumes "i < length logs" "fe \<in> set (Struct (setDefaultValues now (logs ! i)))"
  shows "tag_index i (format_error fe) \<in> set (batch_errors now logs)"
proof -
  have "(i, logs ! i) \<in> set (enumerate 0 logs)" using assms(1) by (simp add: in_set_enumerate_eq)
  then show ?thesis using assms(2)
    unfolding batch_errors_def formatValidationErrors_def by (force simp: image_iff)
qed

subsection \<open>The transaction\<close>

lemma exec_loop_ids:
  "exec_loop db now rows logs = Inr rows' \<Longrightarrow>
   map event_id rows' = map event_id rows @ map event_id logs \<and>
   distinct (map event_id logs) \<and> set (map event_id logs) \<inter> set (map event_id rows) = {}"
proof (induction logs arbitrary: rows)
  case Nil
  then show ?case by simp
next
  case (Cons l ls)
  from Cons.prems obtain r1 where s: "stmt_Exec db now rows l = Inr r1" and e: "exec_loop db now r1 ls = Inr rows'"
    by (auto split: sum.splits)
  from s have r1: "map event_id r1 = map event_id rows @ [event_id l]" and nl: "event_id l \<notin> set (map event_id rows)"
    by (auto simp: stmt_Exec_def split: if_splits option.splits)
  from Cons.IH[OF e] r1 nl show ?case by auto
qed

lemma exec_loop_duplicate:
  "\<not> distinct (map event_id logs) \<or> set (map event_id logs) \<inter> set (map event_id rows) \<noteq> {} \<Longrightarrow>
   \<exists>e. exec_loop db now rows logs = Inl e"
  using exec_loop_ids[of db now rows logs] by (cases "exec_loop db now rows logs") auto

lemma InsertLogsBatch_rollback: "fst (InsertLogsBatch db now logs) \<noteq> None \<Longrightarrow> snd (InsertLogsBatch db now logs) = db"
  by (auto simp: InsertLogsBatch_def split: sum.splits if_splits)

lemma InsertLogsBatch_duplicate:
  assumes "\<not> distinct (map event_id logs) \<or> set (map event_id logs) \<inter> set (map event_id (analytics_logs db)) \<noteq> {}"
  shows "fst (InsertLogsBatch db now logs) \<noteq> None"
proof -
  from assms have ne: "logs \<noteq> []" by auto
  from assms obtain e where "exec_loop db now (analytics_logs db) logs = Inl e"
    using exec_loop_duplicate by blast
  then show ?thesis using ne by (simp add: InsertLogsBatch_def)
qed

lemma event_id_setDefaultValues: "event_id (setDefaultValues now l) = event_id l"
  by (simp add: setDefaultValues_def Let_def)

lemma event_ids_defaults: "map event_id (map (setDefaultValues now) logs) = map event_id logs"
  by (simp add: event_id_setDefaultValues)

lemma InsertLogsBatch_commit:
  assumes "fst (InsertLogsBatch db now logs) = None"
  shows "map event_id (analytics_logs (snd (InsertLogsBatch db now logs))) =
           map event_id (analytics_logs db) @ map event_id logs"
proof (cases "logs = []")
  case True
  then show ?thesis by (simp add: InsertLogsBatch_def)
next
  case False
  with assms obtain tx where e: "exec_loop db now (analytics_logs db) logs = Inr tx"
      and s: "snd (InsertLogsBatch db now logs) = db\<lparr>analytics_logs := tx\<rparr>"
    by (auto simp: InsertLogsBatch_def split: sum.splits if_splits)
  from exec_loop_ids[OF e] s show ?thesis by simp
qed

lemma IngestBatch_invalid:
  assumes "logs \<noteq> []" "length logs \<le> 1000" "\<exists>l\<in>set logs. Struct (setDefaultValues now l) \<noteq> []"
  shows "IngestBatch db now (Some logs) =
           (JSON 400 (ErrorResponse ''validation_error''
              (''Validation failed for '' @ show_nat (length (batch_errors now logs)) @ '' logs'')
              (batch_errors now logs)), db, [])"
proof -
  from assms(3) have "batch_errors now logs \<noteq> []" by (simp add: batch_errors_empty_iff)
  then show ?thesis using assms(1,2)
    by (simp add: IngestBatch_def maxBatchSize_def validate_loop_batch)
qed

lemma IngestBatch_valid:
  assumes "logs \<noteq> []" "length logs \<le> 1000" "\<forall>l\<in>set logs. Struct (setDefaultValues now l) = []"
  shows "IngestBatch db now (Some logs) =
           (case InsertLogsBatch db now (map (setDefaultValues now) logs) of
              (Some err, db') \<Rightarrow>
                (JSON 500 (ErrorResponse ''database_error'' ''Failed to store logs'' []), db',
                 [map (setDefaultValues now) logs])
            | (None, db') \<Rightarrow>
                (JSON 201 (SuccessResponse True
                   (''Batch of '' @ show_nat (length logs) @ '' logs ingested successfully'')
                   [(''logs_processed'', int (length logs)), (''total_received'', int (length logs))]), db',
                 [map (setDefaultValues now) logs]))"
proof -
  from assms(3) have e: "batch_errors now logs = []" by (simp add: batch_errors_empty_iff)
  from assms(3) have f: "filter (\<lambda>l. Struct l = []) (map (setDefaultValues now) logs) = map (setDefaultValues now) logs"
    by (simp add: filter_id_conv)
  show ?thesis using assms(1,2)
    by (simp add: IngestBatch_def maxBatchSize_def validate_loop_batch e f split: prod.split option.split)
qed

lemma batch_within_limits:
  assumes "logs \<noteq> []" and "length logs \<le> 1000"
  shows
    "((\<exists>l\<in>set logs. Struct (setDefaultValues now l) \<noteq> []) \<longrightarrow>
        IngestBatch db now (Some logs) =
          (JSON 400 (ErrorResponse ''validation_error''
             (''Validation failed for '' @ show_nat (length (batch_errors now logs)) @ '' logs'')
             (batch_errors now logs)), db, []) \<and>
        (\<forall>i<length logs. \<forall>fe\<in>set (Struct (setDefaultValues now (logs ! i))).
           tag_index i (format_error fe) \<in> set (batch_errors now logs))) \<and>
     ((\<forall>l\<in>set logs. Struct (setDefaultValues now l) = []) \<and>
      fst (InsertLogsBatch db now (map (setDefaultValues now) logs)) \<noteq> None \<longrightarrow>
        IngestBatch db now (Some logs) =
          (JSON 500 (ErrorResponse ''database_error'' ''Failed to store logs'' []), db,
           [map (setDefaultValues now) logs])) \<and>
     ((\<forall>l\<in>set logs. Struct (setDefaultValues now l) = []) \<and>
      (\<not> distinct (map event_id logs) \<or>
       set (map event_id logs) \<inter> set (map event_id (analytics_logs db)) \<noteq> {}) \<longrightarrow>
        fst (InsertLogsBatch db now (map (setDefaultValues now) logs)) \<noteq> None) \<and>
     ((\<forall>l\<in>set logs. Struct (setDefaultValues now l) = []) \<and>
      fst (InsertLogsBatch db now (map (setDefaultValues now) logs)) = None \<longrightarrow>
        map event_id (analytics_logs (fst (snd (IngestBatch db now (Some logs))))) =
          map event_id (analytics_logs db) @ map event_id logs)"
proof -
  have a: "(\<exists>l\<in>set logs. Struct (setDefaultValues now l) \<noteq> []) \<Longrightarrow>
        IngestBatch db now (Some logs) =
          (JSON 400 (ErrorResponse ''validation_error''
             (''Validation failed for '' @ show_nat (length (batch_errors now logs)) @ '' logs'')
             (batch_errors now logs)), db, [])"
    using assms by (rule IngestBatch_invalid)
  have a': "\<forall>i<length logs. \<forall>fe\<in>set (Struct (setDefaultValues now (logs ! i))).
           tag_index i (format_error fe) \<in> set (batch_errors now logs)"
    using batch_errors_complete by blast
  have b: "(\<forall>l\<in>set logs. Struct (setDefaultValues now l) = []) \<and>
      fst (InsertLogsBatch db now (map (setDefaultValues now) logs)) \<noteq> None \<Longrightarrow>
        IngestBatch db now (Some logs) =
          (JSON 500 (ErrorResponse ''database_error'' ''Failed to store logs'' []), db,
           [map (setDefaultValues now) logs])"
  proof -
    assume h: "(\<forall>l\<in>set logs. Struct (setDefaultValues now l) = []) \<and>
      fst (InsertLogsBatch db now (map (setDefaultValues now) logs)) \<noteq> None"
    let ?r = "InsertLogsBatch db now (map (setDefaultValues now) logs)"
    from h have "snd ?r = db" using InsertLogsBatch_rollback by blast
    moreover from h obtain err where "fst ?r = Some err" by auto
    ultimately have "?r = (Some err, db)" by (cases ?r) auto
    with h assms show ?thesis by (simp add: IngestBatch_valid)
  qed
  have c: "(\<forall>l\<in>set logs. Struct (setDefaultValues now l) = []) \<and>
      (\<not> distinct (map event_id logs) \<or>
       set (map event_id logs) \<inter> set (map event_id (analytics_logs db)) \<noteq> {}) \<Longrightarrow>
        fst (InsertLogsBatch db now (map (setDefaultValues now) logs)) \<noteq> None"
    using InsertLogsBatch_duplicate[of "map (setDefaultValues now) logs" db now]
    unfolding event_ids_defaults by blast
  have d: "(\<forall>l\<in>set logs. Struct (setDefaultValues now l) = []) \<and>
      fst (InsertLogsBatch db now (map (setDefaultValues now) logs)) = None \<Longrightarrow>
        map event_id (analytics_logs (fst (snd (IngestBatch db now (Some logs))))) =
          map event_id (analytics_logs db) @ map event_id logs"
  proof -
    assume h: "(\<forall>l\<in>set logs. Struct (setDefaultValues now l) = []) \<and>
      fst (InsertLogsBatch db now (map (setDefaultValues now) logs)) = None"
    let ?r = "InsertLogsBatch db now (map (setDefaultValues now) logs)"
    from h obtain db' where r: "?r = (None, db')" by (cases ?r) auto
    from h assms have "IngestBatch db now (Some logs) =
           (case ?r of
              (Some err, db') \<Rightarrow>
                (JSON 500 (ErrorResponse ''database_error'' ''Failed to store logs'' []), db',
                 [map (setDefaultValues now) logs])
            | (None, db') \<Rightarrow>
                (JSON 201 (SuccessResponse True
                   (''Batch of '' @ show_nat (length logs) @ '' logs ingested successfully'')
                   [(''logs_processed'', int (length logs)), (''total_received'', int (length logs))]), db',
                 [map (setDefaultValues now) logs]))"
      by (intro IngestBatch_valid) auto
    then have "fst (snd (IngestBatch db now (Some logs))) = snd ?r"
      unfolding r by simp
    moreover from h have "map event_id (analytics_logs (snd ?r)) = map event_id (analytics_logs db) @ map event_id logs"
      using InsertLogsBatch_commit[of db now "map (setDefaultValues now) logs"]
      unfolding event_ids_defaults by blast
    ultimately show ?thesis by simp
  qed
  show ?thesis using a a' b c d by blast
qed

lemma IngestBatch_invalid_any_size:
  assumes "\<exists>l\<in>set logs. Struct (setDefaultValues now l) \<noteq> []"
  shows "fst (snd (IngestBatch db now (Some logs))) = db \<and> snd (snd (IngestBatch db now (Some logs))) = []"
proof (cases "length logs \<le> 1000")
  case True
  from assms have "logs \<noteq> []" by auto
  from IngestBatch_invalid[OF this True assms] show ?thesis by simp
next
  case False
  then show ?thesis by (simp add: IngestBatch_def maxBatchSize_def)
qed

text \<open>
  Claim C7, as the code has it. If some log of a batch fails validation, the store is as
  before and no insert was attempted, whatever the size of the batch. When the batch is
  within the size limits (1 to 1000 logs), the response is \<open>validation_error\<close> with the
  field errors of all logs, each tagged \<open>logs[i].\<close>, every field error of every log
  among them. An insert that fails leaves the store as before: the transaction's rows are
  discarded. Within the size limits, if all logs are valid and the insert fails, the
  response is \<open>database_error\<close> and the store is as before; a repeated \<open>event_id\<close>
  inside the batch, or one the table already holds, makes the insert fail; and if the
  insert succeeds, all rows of the batch are in the table.
\<close>

theorem batch_is_all_or_nothing:
  "((\<exists>l\<in>set logs. Struct (setDefaultValues now l) \<noteq> []) \<longrightarrow>
      fst (snd (IngestBatch db now (Some logs))) = db \<and> snd (snd (IngestBatch db now (Some logs))) = []) \<and>
   (fst (InsertLogsBatch db now batch) \<noteq> None \<longrightarrow> snd (InsertLogsBatch db now batch) = db) \<and>
   (logs \<noteq> [] \<and> length logs \<le> 1000 \<longrightarrow>
     ((\<exists>l\<in>set logs. Struct (setDefaultValues now l) \<noteq> []) \<longrightarrow>
        IngestBatch db now (Some logs) =
          (JSON 400 (ErrorResponse ''validation_error''
             (''Validation failed for '' @ show_nat (length (batch_errors now logs)) @ '' logs'')
             (batch_errors now logs)), db, []) \<and>
        (\<forall>i<length logs. \<forall>fe\<in>set (Struct (setDefaultValues now (logs ! i))).
           tag_index i (format_error fe) \<in> set (batch_errors now logs))) \<and>
     ((\<forall>l\<in>set logs. Struct (setDefaultValues now l) = []) \<and>
      fst (InsertLogsBatch db now (map (setDefaultValues now) logs)) \<noteq> None \<longrightarrow>
        IngestBatch db now (Some logs) =
          (JSON 500 (ErrorResponse ''database_error'' ''Failed to store logs'' []), db,
           [map (setDefaultValues now) logs])) \<and>
     ((\<forall>l\<in>set logs. Struct (setDefaultValues now l) = []) \<and>
      (\<not> distinct (map event_id logs) \<or>
       set (map event_id logs) \<inter> set (map event_id (analytics_logs db)) \<noteq> {}) \<longrightarrow>
        fst (InsertLogsBatch db now (map (setDefaultValues now) logs)) \<noteq> None) \<and>
     ((\<forall>l\<in>set logs. Struct (setDefaultValues now l) = []) \<and>
      fst (InsertLogsBatch db now (map (setDefaultValues now) logs)) = None \<longrightarrow>
        map event_id (analytics_logs (fst (snd (IngestBatch db now (Some logs))))) =
          map event_id (analytics_logs db) @ map event_id logs))"
  using IngestBatch_invalid_any_size[of logs now db] InsertLogsBatch_rollback[of db now batch]
    batch_within_limits[of logs now db]
  by blast

theorem batch_is_all_or_nothing_witness:
  "fst (IngestBatch (example_store []) 5
          (Some [example_log ''e1'', (example_log [])\<lparr>event_type := ''bogus''\<rparr>])) =
     JSON 400 (ErrorResponse ''validation_error'' ''Validation failed for 2 logs''
       [ValidationError ''logs[1].EventID'' ''This field is required'',
        ValidationError ''logs[1].EventType''
          ''Must be one of: behavioral telemetry observability error performance'']) \<and>
   analytics_logs (fst (snd (IngestBatch (example_store []) 5
          (Some [example_log ''e1'', (example_log [])\<lparr>event_type := ''bogus''\<rparr>])))) = [] \<and>
   fst (IngestBatch (example_store []) 5 (Some [example_log ''e1'', example_log ''e2'', example_log ''e1''])) =
     JSON 500 (ErrorResponse ''database_error'' ''Failed to store logs'' []) \<and>
   analytics_logs (fst (snd (IngestBatch (example_store []) 5
          (Some [example_log ''e1'', example_log ''e2'', example_log ''e1''])))) = []"
proof -
  let ?A = "[example_log ''e1'', (example_log [])\<lparr>event_type := ''bogus''\<rparr>]"
  let ?B = "[example_log ''e1'', example_log ''e2'', example_log ''e1'']"
  let ?db = "example_store []"
  have A1: "?A \<noteq> []" "length ?A \<le> 1000" by simp_all
  have B1: "?B \<noteq> []" "length ?B \<le> 1000" by simp_all
  have A2: "\<exists>l\<in>set ?A. Struct (setDefaultValues 5 l) \<noteq> []"
    by code_simp
  have A3: "batch_errors 5 ?A =
       [ValidationError ''logs[1].EventID'' ''This field is required'',
        ValidationError ''logs[1].EventType''
          ''Must be one of: behavioral telemetry observability error performance'']"
    by code_simp
  have A4: "show_nat (Suc (Suc 0)) = ''2''" by code_simp
  have B2: "\<forall>l\<in>set ?B. Struct (setDefaultValues 5 l) = []"
    by code_simp
  have B3: "\<not> distinct (map event_id ?B)" by code_simp
  note tA = batch_is_all_or_nothing[where logs = ?A and now = 5 and db = ?db and batch = "[]",
      THEN conjunct2, THEN conjunct2, THEN mp, OF conjI[OF A1]]
  note tB = batch_is_all_or_nothing[where logs = ?B and now = 5 and db = ?db and batch = "[]",
      THEN conjunct2, THEN conjunct2, THEN mp, OF conjI[OF B1]]
  have "IngestBatch ?db 5 (Some ?A) =
          (JSON 400 (ErrorResponse ''validation_error''
             (''Validation failed for '' @ show_nat (length (batch_errors 5 ?A)) @ '' logs'')
             (batch_errors 5 ?A)), ?db, [])"
    by (rule tA[THEN conjunct1, THEN mp, OF A2, THEN conjunct1])
  then have a: "IngestBatch ?db 5 (Some ?A) =
          (JSON 400 (ErrorResponse ''validation_error'' ''Validation failed for 2 logs''
       [ValidationError ''logs[1].EventID'' ''This field is required'',
        ValidationError ''logs[1].EventType''
          ''Must be one of: behavioral telemetry observability error performance'']), ?db, [])"
    unfolding A3 by (simp add: A4)
  have f: "fst (InsertLogsBatch ?db 5 (map (setDefaultValues 5) ?B)) \<noteq> None"
    by (rule tB[THEN conjunct2, THEN conjunct2, THEN conjunct1, THEN mp, OF conjI[OF B2 disjI1[OF B3]]])
  have b: "IngestBatch ?db 5 (Some ?B) =
          (JSON 500 (ErrorResponse ''database_error'' ''Failed to store logs'' []), ?db,
           [map (setDefaultValues 5) ?B])"
    by (rule tB[THEN conjunct2, THEN conjunct1, THEN mp, OF conjI[OF B2 f]])
  have e: "analytics_logs ?db = []" by (simp add: example_store_def)
  show ?thesis unfolding a b using e by simp
qed

text \<open>
  The enumeration of the claim, stated for every batch with an invalid log, fails beyond
  the size limit: of 1001 logs that all lack their \<open>event_id\<close>, none is named in the
  response, which is \<open>batch_too_large\<close> with no field listed.
\<close>

theorem oversized_invalid_batch_lists_no_field:
  "Struct (setDefaultValues 5 (example_log [])) = [FieldError ''EventID'' ''required'' []] \<and>
   IngestBatch (example_store []) 5 (Some (replicate 1001 (example_log []))) =
     (JSON 400 (ErrorResponse ''batch_too_large'' ''Batch size cannot exceed 1000 logs'' []),
      example_store [], [])"
proof -
  have a: "Struct (setDefaultValues 5 (example_log [])) = [FieldError ''EventID'' ''required'' []]"
    by code_simp
  have b: "IngestBatch (example_store []) 5 (Some (replicate 1001 (example_log []))) =
     (JSON 400 (ErrorResponse ''batch_too_large'' ''Batch size cannot exceed 1000 logs'' []),
      example_store [], [])"
    by (simp add: IngestBatch_def maxBatchSize_def show_nat_1000)
  from a b show ?thesis by (rule conjI)
qed

end
